theory Spec2Isabelle
  imports Main "HOL-Library.Word"
begin

section \<open>The lower-bound search of Algorithms/Exercises.cpp\<close>

text \<open>
  \<^verbatim>\<open>Misc::BinarySearch\<close> (Exercises.cpp, lines 606 to 657) takes two forward iterators
  and a value. The sequence the iterators point into is a list \<open>xs\<close>; a position is an
  index into it, with \<open>length xs\<close> the position one past the last element, as for the
  \<^verbatim>\<open>std::vector\<close> iterators of the driver \<^verbatim>\<open>Exercise3\<close>. The range of a call is the pair
  \<open>(first, last')\<close>, written \<open>last'\<close> because \<open>last\<close> is a list function of HOL.
\<close>

subsection \<open>Dereferencing a position\<close>

text \<open>
  \<^verbatim>\<open>*it\<close> is defined for the positions of the elements only. Dereferencing any other
  position (the end position included) is undefined behaviour in the source; the model
  makes it an error value that ends the call.
\<close>

datatype error = OutOfBounds nat

definition deref :: "'a list \<Rightarrow> nat \<Rightarrow> error + 'a" where
  "deref xs p = (if p < length xs then Inr (xs ! p) else Inl (OutOfBounds p))"

subsection \<open>What a call does\<close>

text \<open>
  The function has no state and writes nothing. What can be observed of a call, besides
  the position it returns, are the invocations of the function (the outer call and every
  recursive one, each with its range) and the positions it dereferences, in order.
\<close>

datatype event = Invoke nat nat | Deref nat

type_synonym outcome = "event list \<times> (error + nat)"

definition logged :: "event list \<Rightarrow> outcome \<Rightarrow> outcome" where
  "logged es r = (es @ fst r, snd r)"

fun invocations :: "event list \<Rightarrow> (nat \<times> nat) list" where
  "invocations [] = []"
| "invocations (Invoke f l # es) = (f, l) # invocations es"
| "invocations (Deref p # es) = invocations es"

fun derefs :: "event list \<Rightarrow> nat list" where
  "derefs [] = []"
| "derefs (Invoke f l # es) = derefs es"
| "derefs (Deref p # es) = p # derefs es"

subsection \<open>The span of a range\<close>

text \<open>
  \<^verbatim>\<open>std::distance(first, last)\<close> is the signed difference of the two positions, of the
  iterators' difference type (64 bits wide where a sequence can have \<open>2 ^ 32\<close> elements).
  The source stores it in the local \<^verbatim>\<open>unsigned int current_distance\<close> (line 613), a
  32-bit word: the conversion keeps the difference modulo \<open>2 ^ 32\<close>. The local
  \<^verbatim>\<open>middle\<close> (line 632) has the same type.
\<close>

definition distance :: "nat \<Rightarrow> nat \<Rightarrow> int" where
  "distance first last' = int last' - int first"

definition current_distance :: "nat \<Rightarrow> nat \<Rightarrow> 32 word" where
  "current_distance first last' = word_of_int (distance first last')"

subsection \<open>BinarySearch\<close>

text \<open>
  The body of the source, branch by branch: the break condition of lines 613 to 625
  (which dereferences \<open>first\<close> whatever the span is), the midpoint of lines 629 to 638,
  and the two recursive calls of lines 642 to 651. The \<^verbatim>\<open>return first\<close> of line 656 is
  unreachable. Both recursive calls are on a range of smaller stored span, which is the
  termination argument.
\<close>

function BinarySearch :: "('a :: linorder) list \<Rightarrow> nat \<Rightarrow> nat \<Rightarrow> 'a \<Rightarrow> outcome" where
  "BinarySearch xs first last' v =
     (if current_distance first last' \<le> 1 then
        (case deref xs first of
           Inl e \<Rightarrow> ([Invoke first last', Deref first], Inl e)
         | Inr x \<Rightarrow>
             ([Invoke first last', Deref first], if x \<ge> v then Inr first else Inr last'))
      else
        let middle = current_distance first last' div 2;
            middle_it = first + unat middle
        in (case deref xs middle_it of
              Inl e \<Rightarrow> ([Invoke first last', Deref middle_it], Inl e)
            | Inr current_element \<Rightarrow>
                if current_element \<ge> v then
                  logged [Invoke first last', Deref middle_it]
                    (BinarySearch xs first middle_it v)
                else
                  logged [Invoke first last', Deref middle_it]
                    (BinarySearch xs middle_it last' v)))"
  by pat_completeness auto
termination
proof (relation "measure (\<lambda>(xs, first, last', v). unat (current_distance first last'))")
  show "wf (measure (\<lambda>(xs, first, last', v). unat (current_distance first last')))"
    by simp
next
  fix xs :: "'a list" and first last' :: nat and v :: 'a and x xa
  assume big: "\<not> current_distance first last' \<le> 1"
    and x: "x = current_distance first last' div 2"
    and xa: "xa = first + unat x"
  have "current_distance first xa = x"
    by (simp add: xa current_distance_def distance_def)
  moreover have "unat x < unat (current_distance first last')"
    using big by (simp add: x unat_div word_le_nat_alt)
  ultimately show "((xs, first, xa, v), (xs, first, last', v))
      \<in> measure (\<lambda>(xs, first, last', v). unat (current_distance first last'))"
    by simp
next
  fix xs :: "'a list" and first last' :: nat and v :: 'a and x xa
  assume big: "\<not> current_distance first last' \<le> 1"
    and x: "x = current_distance first last' div 2"
    and xa: "xa = first + unat x"
  have "current_distance xa last' = current_distance first last' - x"
    by (simp add: xa current_distance_def distance_def)
  moreover have "x \<le> current_distance first last'"
    by (simp add: x word_le_nat_alt unat_div)
  moreover have "0 < unat x" and "unat x \<le> unat (current_distance first last')"
    using big by (simp_all add: x unat_div word_le_nat_alt)
  ultimately show "((xs, xa, last', v), (xs, first, last', v))
      \<in> measure (\<lambda>(xs, first, last', v). unat (current_distance first last'))"
    by (simp add: unat_sub)
qed

declare BinarySearch.simps [simp del]

subsection \<open>The template with its two type parameters\<close>

text \<open>
  The source is a template over the iterator and over \<^verbatim>\<open>ValueType\<close>, the type of the
  value, which need not be the element type. The two tests then differ: the break
  condition compares the element itself with the value (\<^verbatim>\<open>*first >= value\<close>, line 617),
  while the midpoint element is first converted to \<^verbatim>\<open>ValueType\<close> by the initialisation
  of \<^verbatim>\<open>const ValueType& current_element\<close> (line 638) and compared there (line 642).
  \<open>BinarySearch_template\<close> is the same body with the conversion \<open>convert\<close> and the
  comparison \<open>element_ge\<close> of an element with a value as parameters; \<open>BinarySearch\<close>
  above is the call where the value has the element type (lemma
  \<open>BinarySearch_template_same_type\<close> below).
\<close>

function BinarySearch_template ::
  "('e \<Rightarrow> 'v) \<Rightarrow> ('e \<Rightarrow> 'v \<Rightarrow> bool) \<Rightarrow> 'e list \<Rightarrow> nat \<Rightarrow> nat \<Rightarrow> ('v :: linorder) \<Rightarrow> outcome"
  where
  "BinarySearch_template convert element_ge xs first last' v =
     (if current_distance first last' \<le> 1 then
        (case deref xs first of
           Inl e \<Rightarrow> ([Invoke first last', Deref first], Inl e)
         | Inr x \<Rightarrow>
             ([Invoke first last', Deref first],
              if element_ge x v then Inr first else Inr last'))
      else
        let middle = current_distance first last' div 2;
            middle_it = first + unat middle
        in (case deref xs middle_it of
              Inl e \<Rightarrow> ([Invoke first last', Deref middle_it], Inl e)
            | Inr x \<Rightarrow>
                let current_element = convert x in
                if current_element \<ge> v then
                  logged [Invoke first last', Deref middle_it]
                    (BinarySearch_template convert element_ge xs first middle_it v)
                else
                  logged [Invoke first last', Deref middle_it]
                    (BinarySearch_template convert element_ge xs middle_it last' v)))"
  by pat_completeness auto
termination
proof (relation "measure (\<lambda>(c, g, xs, first, last', v). unat (current_distance first last'))")
  show "wf (measure (\<lambda>(c :: 'e \<Rightarrow> 'v, g :: 'e \<Rightarrow> 'v \<Rightarrow> bool, xs :: 'e list, first, last', v :: 'v).
      unat (current_distance first last')))"
    by simp
next
  fix c :: "'e \<Rightarrow> 'v" and g :: "'e \<Rightarrow> 'v \<Rightarrow> bool" and xs :: "'e list"
    and first last' :: nat and v :: 'v and x xa
  assume big: "\<not> current_distance first last' \<le> 1"
    and x: "x = current_distance first last' div 2"
    and xa: "xa = first + unat x"
  have "current_distance first xa = x"
    by (simp add: xa current_distance_def distance_def)
  moreover have "unat x < unat (current_distance first last')"
    using big by (simp add: x unat_div word_le_nat_alt)
  ultimately show "((c, g, xs, first, xa, v), (c, g, xs, first, last', v))
      \<in> measure (\<lambda>(c, g, xs, first, last', v). unat (current_distance first last'))"
    by simp
next
  fix c :: "'e \<Rightarrow> 'v" and g :: "'e \<Rightarrow> 'v \<Rightarrow> bool" and xs :: "'e list"
    and first last' :: nat and v :: 'v and x xa
  assume big: "\<not> current_distance first last' \<le> 1"
    and x: "x = current_distance first last' div 2"
    and xa: "xa = first + unat x"
  have "current_distance xa last' = current_distance first last' - x"
    by (simp add: xa current_distance_def distance_def)
  moreover have "x \<le> current_distance first last'"
    by (simp add: x word_le_nat_alt unat_div)
  moreover have "0 < unat x" and "unat x \<le> unat (current_distance first last')"
    using big by (simp_all add: x unat_div word_le_nat_alt)
  ultimately show "((c, g, xs, xa, last', v), (c, g, xs, first, last', v))
      \<in> measure (\<lambda>(c, g, xs, first, last', v). unat (current_distance first last'))"
    by (simp add: unat_sub)
qed

declare BinarySearch_template.simps [simp del]

text \<open>
  A call the template accepts with two types: elements of type \<^verbatim>\<open>unsigned\<close> and a value
  of type \<^verbatim>\<open>int\<close>. The conversion of line 638 reads the 32 bits as a signed number;
  the comparison of line 617 converts the value to \<^verbatim>\<open>unsigned\<close> and compares there.
\<close>

definition unsigned_to_int :: "32 word \<Rightarrow> int" where
  "unsigned_to_int x = sint x"

definition unsigned_ge_int :: "32 word \<Rightarrow> int \<Rightarrow> bool" where
  "unsigned_ge_int x v = (x \<ge> word_of_int v)"

subsection \<open>The elements of a range\<close>

text \<open>
  The precondition of the search is on the elements between the two positions:
  they are sorted ascending.
\<close>

definition elements :: "'a list \<Rightarrow> nat \<Rightarrow> nat \<Rightarrow> 'a list" where
  "elements xs first last' = take (last' - first) (drop first xs)"

subsection \<open>The narrowing in the words of the specification\<close>

text \<open>
  The specification describes one recursive step as: take the midpoint at span length
  / 2 (floored); if the midpoint element is \<open>\<ge> value\<close> recurse on \<open>[start, midpoint]\<close>,
  inclusive of the midpoint, otherwise on \<open>(midpoint, end)\<close>. The two definitions below
  follow these words, not the source, for comparison with what \<open>BinarySearch\<close> invokes.
  A range is the pair of its start and the position one past its last element, so
  \<open>[start, midpoint]\<close> is \<open>(start, midpoint + 1)\<close> and \<open>(midpoint, end)\<close> is
  \<open>(midpoint + 1, end)\<close>.
\<close>

definition spec_midpoint :: "nat \<Rightarrow> nat \<Rightarrow> nat" where
  "spec_midpoint first last' = first + (last' - first) div 2"


section \<open>Unfolding one invocation\<close>

lemma BinarySearch_base:
  "current_distance first last' \<le> 1 \<Longrightarrow>
   BinarySearch xs first last' v =
     (case deref xs first of
        Inl e \<Rightarrow> ([Invoke first last', Deref first], Inl e)
      | Inr x \<Rightarrow> ([Invoke first last', Deref first], if x \<ge> v then Inr first else Inr last'))"
  by (subst BinarySearch.simps) simp

lemma BinarySearch_step:
  assumes "\<not> current_distance first last' \<le> 1"
    and "m = first + unat (current_distance first last' div 2)"
    and "deref xs m = Inr x"
  shows "BinarySearch xs first last' v =
     logged [Invoke first last', Deref m]
       (if x \<ge> v then BinarySearch xs first m v else BinarySearch xs m last' v)"
  using assms by (subst BinarySearch.simps) (simp add: Let_def)

lemma BinarySearch_step_error:
  assumes "\<not> current_distance first last' \<le> 1"
    and "m = first + unat (current_distance first last' div 2)"
    and "deref xs m = Inl e"
  shows "BinarySearch xs first last' v = ([Invoke first last', Deref m], Inl e)"
  using assms by (subst BinarySearch.simps) (simp add: Let_def)

lemma snd_logged: "snd (logged es r) = snd r"
  by (simp add: logged_def)

lemma fst_logged: "fst (logged es r) = es @ fst r"
  by (simp add: logged_def)

lemma invocations_append: "invocations (es @ fs) = invocations es @ invocations fs"
  by (induction es rule: invocations.induct) simp_all

lemma derefs_append: "derefs (es @ fs) = derefs es @ derefs fs"
  by (induction es rule: derefs.induct) simp_all

section \<open>The stored span\<close>

lemma unat_half_less: "\<not> (w :: 32 word) \<le> 1 \<Longrightarrow> unat (w div 2) < unat w"
  by (simp add: unat_div word_le_nat_alt)

lemma unat_half_pos: "\<not> (w :: 32 word) \<le> 1 \<Longrightarrow> 0 < unat (w div 2)"
  by (simp add: unat_div word_le_nat_alt)




lemma unat_current_distance:
  "first \<le> last' \<Longrightarrow> unat (current_distance first last') = (last' - first) mod 2 ^ 32"
proof -
  assume "first \<le> last'"
  then have "distance first last' = int (last' - first)"
    by (simp add: distance_def)
  then have "current_distance first last' = of_nat (last' - first)"
    by (simp add: current_distance_def)
  then show ?thesis
    by (simp add: unat_of_nat)
qed

lemma unat_current_distance_le:
  "first \<le> last' \<Longrightarrow> unat (current_distance first last') \<le> last' - first"
  by (simp add: unat_current_distance)

lemma unat_current_distance_small:
  "first \<le> last' \<Longrightarrow> last' - first < 2 ^ 32 \<Longrightarrow>
   unat (current_distance first last') = last' - first"
  by (simp add: unat_current_distance)

lemma middle_in_range:
  assumes "first \<le> last'" and "\<not> current_distance first last' \<le> 1"
  shows "first < first + unat (current_distance first last' div 2)"
    and "first + unat (current_distance first last' div 2) < last'"
proof -
  show "first < first + unat (current_distance first last' div 2)"
    using unat_half_pos [OF assms(2)] by simp
  have "unat (current_distance first last' div 2) < unat (current_distance first last')"
    by (rule unat_half_less [OF assms(2)])
  also have "\<dots> \<le> last' - first"
    by (rule unat_current_distance_le [OF assms(1)])
  finally show "first + unat (current_distance first last' div 2) < last'"
    by simp
qed

section \<open>Induction over the invocations on a range of the sequence\<close>

lemma BinarySearch_range_induct [consumes 2, case_names base step]:
  fixes xs :: "('a :: linorder) list"
  assumes valid: "first \<le> last'" "last' \<le> length xs"
    and base: "\<And>first last'. first \<le> last' \<Longrightarrow> last' \<le> length xs \<Longrightarrow>
        current_distance first last' \<le> 1 \<Longrightarrow> P first last'"
    and step: "\<And>first last' m. first < m \<Longrightarrow> m < last' \<Longrightarrow> last' \<le> length xs \<Longrightarrow>
        \<not> current_distance first last' \<le> 1 \<Longrightarrow>
        m = first + unat (current_distance first last' div 2) \<Longrightarrow>
        (xs ! m \<ge> v \<Longrightarrow> P first m) \<Longrightarrow> (\<not> xs ! m \<ge> v \<Longrightarrow> P m last') \<Longrightarrow>
        P first last'"
  shows "P first last'"
  using valid
proof (induction "last' - first" arbitrary: first last' rule: less_induct)
  case less
  show ?case
  proof (cases "current_distance first last' \<le> 1")
    case True
    with less.prems show ?thesis by (rule base)
  next
    case False
    define m where "m = first + unat (current_distance first last' div 2)"
    have m: "first < m" "m < last'"
      using middle_in_range [OF less.prems(1) False] by (simp_all add: m_def)
    have left: "P first m"
      using less.hyps [of m first] m less.prems(2) by simp
    have right: "P m last'"
      using less.hyps [of last' m] m less.prems(2) by simp
    show ?thesis
      using left right by (intro step [OF m less.prems(2) False m_def])
  qed
qed

lemma BinarySearch_in_range_step:
  assumes "first < m" "m < last'" "last' \<le> length xs"
    and "\<not> current_distance first last' \<le> 1"
    and "m = first + unat (current_distance first last' div 2)"
  shows "BinarySearch xs first last' v =
     logged [Invoke first last', Deref m]
       (if xs ! m \<ge> v then BinarySearch xs first m v else BinarySearch xs m last' v)"
proof -
  have "deref xs m = Inr (xs ! m)"
    using assms(2,3) by (simp add: deref_def)
  with assms(4,5) show ?thesis
    by (rule BinarySearch_step)
qed

lemma BinarySearch_in_range_base:
  assumes "first < last'" "last' \<le> length xs" "current_distance first last' \<le> 1"
  shows "BinarySearch xs first last' v =
     ([Invoke first last', Deref first], if xs ! first \<ge> v then Inr first else Inr last')"
proof -
  have "deref xs first = Inr (xs ! first)"
    using assms(1,2) by (simp add: deref_def)
  with assms(3) show ?thesis
    by (simp add: BinarySearch_base)
qed


section \<open>Sorted ranges\<close>

lemma elements_nth:
  assumes "first \<le> i" "i < last'" "last' \<le> length xs"
  shows "elements xs first last' ! (i - first) = xs ! i"
  using assms by (simp add: elements_def)

lemma length_elements: "last' \<le> length xs \<Longrightarrow> length (elements xs first last') = last' - first"
  by (simp add: elements_def)

lemma sorted_elements_le:
  assumes "sorted (elements xs first last')" "last' \<le> length xs"
    and "first \<le> i" "i \<le> j" "j < last'"
  shows "xs ! i \<le> xs ! j"
proof -
  have "elements xs first last' ! (i - first) \<le> elements xs first last' ! (j - first)"
    using assms by (intro sorted_nth_mono) (simp_all add: length_elements)
  then show ?thesis
    using assms by (simp add: elements_nth)
qed

lemma elements_sub:
  assumes "first \<le> f" "l \<le> last'"
  shows "elements xs f l = take (l - f) (drop (f - first) (elements xs first last'))"
  using assms by (simp add: elements_def drop_take min_def)

lemma sorted_elements_sub:
  assumes "sorted (elements xs first last')" "first \<le> f" "l \<le> last'"
  shows "sorted (elements xs f l)"
  using assms by (simp add: elements_sub [of first f l last'] sorted_wrt_take sorted_wrt_drop)

section \<open>Results on a non-empty range\<close>

lemma one_element:
  assumes "first < last'" "last' - first < 2 ^ 32" "current_distance first last' \<le> 1"
  shows "last' = Suc first"
proof -
  have "unat (current_distance first last') = last' - first"
    using assms(1,2) by (simp add: unat_current_distance_small)
  moreover have "unat (current_distance first last') \<le> 1"
    using assms(3) by (simp add: word_le_nat_alt)
  ultimately show ?thesis
    using assms(1) by simp
qed

text \<open>
  C10: on a non-empty range of the sequence the call returns a position, and the position
  is one of the range or its end, whatever the order of the elements.
\<close>

theorem BinarySearch_position_in_range:
  fixes xs :: "('a :: linorder) list"
  assumes "first < last'" and "last' \<le> length xs"
  shows "\<exists>p. snd (BinarySearch xs first last' v) = Inr p \<and> first \<le> p \<and> p \<le> last'"
proof -
  have "first \<le> last'"
    using assms(1) by simp
  then have "first < last' \<longrightarrow>
      (\<exists>p. snd (BinarySearch xs first last' v) = Inr p \<and> first \<le> p \<and> p \<le> last')"
    using assms(2)
  proof (induction rule: BinarySearch_range_induct [where v = v])
    case (base first last')
    then show ?case
      by (simp add: BinarySearch_in_range_base)
  next
    case (step first last' m)
    have eq: "BinarySearch xs first last' v =
        logged [Invoke first last', Deref m]
          (if xs ! m \<ge> v then BinarySearch xs first m v else BinarySearch xs m last' v)"
      by (rule BinarySearch_in_range_step [OF step(1-5)])
    show ?case
    proof (cases "xs ! m \<ge> v")
      case True
      then obtain p where "snd (BinarySearch xs first m v) = Inr p" "first \<le> p" "p \<le> m"
        using step(1,6) by blast
      with True step(2) show ?thesis
        by (auto simp: eq snd_logged)
    next
      case False
      then obtain p where "snd (BinarySearch xs m last' v) = Inr p" "m \<le> p" "p \<le> last'"
        using step(2,7) by blast
      with False step(1) show ?thesis
        by (auto simp: eq snd_logged)
    qed
  qed
  with assms(1) show ?thesis
    by simp
qed

theorem BinarySearch_position_in_range_witness:
  "(0 :: nat) < 4 \<and> (4 :: nat) \<le> length [9, 1, 7, 3 :: int]
   \<and> (\<exists>p. snd (BinarySearch [9, 1, 7, 3 :: int] 0 4 5) = Inr p \<and> 0 \<le> p \<and> p \<le> 4)"
  using BinarySearch_position_in_range [of 0 4 "[9, 1, 7, 3 :: int]" 5]
  by simp


text \<open>
  When the value has the element type: on a non-empty sorted range whose first element is
  \<open>\<ge> v\<close> the call returns the first position. The midpoint element is then \<open>\<ge> v\<close> at
  every step, so every recursive call keeps \<open>first\<close>.
\<close>

theorem BinarySearch_at_most_first:
  fixes xs :: "('a :: linorder) list"
  assumes "first < last'" and "last' \<le> length xs"
    and "sorted (elements xs first last')" and "v \<le> xs ! first"
  shows "snd (BinarySearch xs first last' v) = Inr first"
proof -
  have "first \<le> last'"
    using assms(1) by simp
  then have "first < last' \<longrightarrow> sorted (elements xs first last') \<longrightarrow> v \<le> xs ! first \<longrightarrow>
      snd (BinarySearch xs first last' v) = Inr first"
    using assms(2)
  proof (induction rule: BinarySearch_range_induct [where v = v])
    case (base first last')
    show ?case
    proof (intro impI)
      assume ne: "first < last'" and le: "v \<le> xs ! first"
      have "BinarySearch xs first last' v =
          ([Invoke first last', Deref first], if xs ! first \<ge> v then Inr first else Inr last')"
        by (rule BinarySearch_in_range_base [OF ne base(2,3)])
      with le show "snd (BinarySearch xs first last' v) = Inr first"
        by simp
    qed
  next
    case (step first last' m)
    have eq: "BinarySearch xs first last' v =
        logged [Invoke first last', Deref m]
          (if xs ! m \<ge> v then BinarySearch xs first m v else BinarySearch xs m last' v)"
      by (rule BinarySearch_in_range_step [OF step(1-5)])
    show ?case
    proof (intro impI)
      assume sorted: "sorted (elements xs first last')" and le: "v \<le> xs ! first"
      have "xs ! first \<le> xs ! m"
        by (rule sorted_elements_le [of xs first last']) (use sorted step(1-3) in simp_all)
      with le have mid: "v \<le> xs ! m"
        by simp
      have "sorted (elements xs first m)"
        by (rule sorted_elements_sub [of xs first last']) (use sorted step(2) in simp_all)
      with step(1) step(6) [OF mid] le have "snd (BinarySearch xs first m v) = Inr first"
        by blast
      with mid show "snd (BinarySearch xs first last' v) = Inr first"
        by (simp add: eq snd_logged)
    qed
  qed
  with assms(1,3,4) show ?thesis
    by simp
qed

theorem BinarySearch_at_most_first_witness:
  "(0 :: nat) < 7 \<and> (7 :: nat) \<le> length [1, 3, 4, 6, 7, 9, 10 :: int]
   \<and> sorted (elements [1, 3, 4, 6, 7, 9, 10 :: int] 0 7)
   \<and> (0 :: int) \<le> [1, 3, 4, 6, 7, 9, 10] ! 0
   \<and> snd (BinarySearch [1, 3, 4, 6, 7, 9, 10 :: int] 0 7 0) = Inr 0"
proof -
  have s: "sorted (elements [1, 3, 4, 6, 7, 9, 10 :: int] 0 7)"
    by (simp add: elements_def)
  show ?thesis
    using s BinarySearch_at_most_first [of 0 7 "[1, 3, 4, 6, 7, 9, 10 :: int]" 0]
    by simp
qed


text \<open>
  The lower-bound contract of the comment above the function (lines 602 to 604), on the
  ranges where it holds: non-empty, sorted, and of a span that the \<^verbatim>\<open>unsigned int\<close>
  holds. The position returned splits the range into the elements \<open>< v\<close> before it and
  the elements \<open>\<ge> v\<close> from it on.
\<close>

lemma BinarySearch_lower_bound:
  fixes xs :: "('a :: linorder) list"
  assumes "first < last'" and "last' \<le> length xs" and "last' - first < 2 ^ 32"
    and "sorted (elements xs first last')"
  shows "\<exists>p. snd (BinarySearch xs first last' v) = Inr p \<and> first \<le> p \<and> p \<le> last'
    \<and> (\<forall>i. first \<le> i \<and> i < p \<longrightarrow> xs ! i < v)
    \<and> (\<forall>i. p \<le> i \<and> i < last' \<longrightarrow> v \<le> xs ! i)"
proof -
  have "first \<le> last'"
    using assms(1) by simp
  then have "first < last' \<longrightarrow> last' - first < 2 ^ 32 \<longrightarrow> sorted (elements xs first last') \<longrightarrow>
      (\<exists>p. snd (BinarySearch xs first last' v) = Inr p \<and> first \<le> p \<and> p \<le> last'
        \<and> (\<forall>i. first \<le> i \<and> i < p \<longrightarrow> xs ! i < v)
        \<and> (\<forall>i. p \<le> i \<and> i < last' \<longrightarrow> v \<le> xs ! i))"
    using assms(2)
  proof (induction rule: BinarySearch_range_induct [where v = v])
    case (base first last')
    show ?case
    proof (intro impI)
      assume ne: "first < last'" and small: "last' - first < 2 ^ 32"
      have one: "last' = Suc first"
        by (rule one_element [OF ne small base(3)])
      have eq: "BinarySearch xs first last' v =
          ([Invoke first last', Deref first], if xs ! first \<ge> v then Inr first else Inr last')"
        by (rule BinarySearch_in_range_base [OF ne base(2,3)])
      show "\<exists>p. snd (BinarySearch xs first last' v) = Inr p \<and> first \<le> p \<and> p \<le> last'
        \<and> (\<forall>i. first \<le> i \<and> i < p \<longrightarrow> xs ! i < v)
        \<and> (\<forall>i. p \<le> i \<and> i < last' \<longrightarrow> v \<le> xs ! i)"
      proof (cases "xs ! first \<ge> v")
        case True
        have "\<forall>i. first \<le> i \<and> i < last' \<longrightarrow> v \<le> xs ! i"
          using True one by (auto simp: less_Suc_eq_le)
        with True ne show ?thesis
          by (auto simp: eq)
      next
        case False
        have "\<forall>i. first \<le> i \<and> i < last' \<longrightarrow> xs ! i < v"
          using False one by (auto simp: less_Suc_eq_le)
        with False ne show ?thesis
          by (auto simp: eq)
      qed
    qed
  next
    case (step first last' m)
    have eq: "BinarySearch xs first last' v =
        logged [Invoke first last', Deref m]
          (if xs ! m \<ge> v then BinarySearch xs first m v else BinarySearch xs m last' v)"
      by (rule BinarySearch_in_range_step [OF step(1-5)])
    show ?case
    proof (intro impI)
      assume small: "last' - first < 2 ^ 32" and sorted: "sorted (elements xs first last')"
      show "\<exists>p. snd (BinarySearch xs first last' v) = Inr p \<and> first \<le> p \<and> p \<le> last'
        \<and> (\<forall>i. first \<le> i \<and> i < p \<longrightarrow> xs ! i < v)
        \<and> (\<forall>i. p \<le> i \<and> i < last' \<longrightarrow> v \<le> xs ! i)"
      proof (cases "xs ! m \<ge> v")
        case True
        have "sorted (elements xs first m)"
          by (rule sorted_elements_sub [of xs first last']) (use sorted step(2) in simp_all)
        moreover have "m - first < 2 ^ 32"
          using small step(2) by simp
        ultimately obtain p where p: "snd (BinarySearch xs first m v) = Inr p"
            "first \<le> p" "p \<le> m" "\<forall>i. first \<le> i \<and> i < p \<longrightarrow> xs ! i < v"
            "\<forall>i. p \<le> i \<and> i < m \<longrightarrow> v \<le> xs ! i"
          using step(1,6) True by blast
        have "v \<le> xs ! i" if "p \<le> i" "i < last'" for i
        proof (cases "i < m")
          case True
          with p(5) that show ?thesis by simp
        next
          case False
          have "xs ! m \<le> xs ! i"
            by (rule sorted_elements_le [of xs first last'])
              (use sorted step(1,3) that False in simp_all)
          with \<open>xs ! m \<ge> v\<close> show ?thesis by simp
        qed
        with p(1-4) step(2) True show ?thesis
          by (auto simp: eq snd_logged)
      next
        case False
        have "sorted (elements xs m last')"
          by (rule sorted_elements_sub [of xs first last']) (use sorted step(1) in simp_all)
        moreover have "last' - m < 2 ^ 32"
          using small step(1) by simp
        ultimately obtain p where p: "snd (BinarySearch xs m last' v) = Inr p"
            "m \<le> p" "p \<le> last'" "\<forall>i. m \<le> i \<and> i < p \<longrightarrow> xs ! i < v"
            "\<forall>i. p \<le> i \<and> i < last' \<longrightarrow> v \<le> xs ! i"
          using step(2,7) False by blast
        have "xs ! i < v" if "first \<le> i" "i < p" for i
        proof (cases "m \<le> i")
          case True
          with p(4) that show ?thesis by simp
        next
          case False
          have "xs ! i \<le> xs ! m"
            by (rule sorted_elements_le [of xs first last'])
              (use sorted step(2,3) that False in simp_all)
          with \<open>\<not> xs ! m \<ge> v\<close> show ?thesis by simp
        qed
        with p(1-3,5) step(1) False show ?thesis
          by (auto simp: eq snd_logged)
      qed
    qed
  qed
  with assms(1,3,4) show ?thesis
    by simp
qed

section \<open>The invocations and the dereferences of a call\<close>

lemma BinarySearch_base_trace:
  "current_distance first last' \<le> 1 \<Longrightarrow>
   fst (BinarySearch xs first last' v) = [Invoke first last', Deref first]"
  by (simp add: BinarySearch_base split: sum.split)

lemma invocations_within:
  fixes xs :: "('a :: linorder) list"
  assumes "first < last'" and "last' \<le> length xs"
  shows "\<forall>(f, l) \<in> set (invocations (fst (BinarySearch xs first last' v))).
    first \<le> f \<and> f < l \<and> l \<le> last'"
proof -
  have "first \<le> last'"
    using assms(1) by simp
  then have "first < last' \<longrightarrow>
      (\<forall>(f, l) \<in> set (invocations (fst (BinarySearch xs first last' v))).
        first \<le> f \<and> f < l \<and> l \<le> last')"
    using assms(2)
  proof (induction rule: BinarySearch_range_induct [where v = v])
    case (base first last')
    then show ?case
      by (simp add: BinarySearch_base_trace)
  next
    case (step first last' m)
    have eq: "BinarySearch xs first last' v =
        logged [Invoke first last', Deref m]
          (if xs ! m \<ge> v then BinarySearch xs first m v else BinarySearch xs m last' v)"
      by (rule BinarySearch_in_range_step [OF step(1-5)])
    show ?case
    proof (cases "xs ! m \<ge> v")
      case True
      then have "\<forall>(f, l) \<in> set (invocations (fst (BinarySearch xs first m v))).
          first \<le> f \<and> f < l \<and> l \<le> m"
        using step(1,6) by blast
      with True step(1,2) show ?thesis
        by (auto simp: eq fst_logged invocations_append)
    next
      case False
      then have "\<forall>(f, l) \<in> set (invocations (fst (BinarySearch xs m last' v))).
          m \<le> f \<and> f < l \<and> l \<le> last'"
        using step(2,7) by blast
      with False step(1,2) show ?thesis
        by (auto simp: eq fst_logged invocations_append)
    qed
  qed
  with assms(1) show ?thesis
    by simp
qed

lemma derefs_within:
  fixes xs :: "('a :: linorder) list"
  assumes "first < last'" and "last' \<le> length xs"
  shows "\<forall>p \<in> set (derefs (fst (BinarySearch xs first last' v))). first \<le> p \<and> p < last'"
proof -
  have "first \<le> last'"
    using assms(1) by simp
  then have "first < last' \<longrightarrow>
      (\<forall>p \<in> set (derefs (fst (BinarySearch xs first last' v))). first \<le> p \<and> p < last')"
    using assms(2)
  proof (induction rule: BinarySearch_range_induct [where v = v])
    case (base first last')
    then show ?case
      by (simp add: BinarySearch_base_trace)
  next
    case (step first last' m)
    have eq: "BinarySearch xs first last' v =
        logged [Invoke first last', Deref m]
          (if xs ! m \<ge> v then BinarySearch xs first m v else BinarySearch xs m last' v)"
      by (rule BinarySearch_in_range_step [OF step(1-5)])
    show ?case
    proof (cases "xs ! m \<ge> v")
      case True
      then have "\<forall>p \<in> set (derefs (fst (BinarySearch xs first m v))). first \<le> p \<and> p < m"
        using step(1,6) by blast
      with True step(1,2) show ?thesis
        by (auto simp: eq fst_logged derefs_append)
    next
      case False
      then have "\<forall>p \<in> set (derefs (fst (BinarySearch xs m last' v))). m \<le> p \<and> p < last'"
        using step(2,7) by blast
      with False step(1,2) show ?thesis
        by (auto simp: eq fst_logged derefs_append)
    qed
  qed
  with assms(1) show ?thesis
    by simp
qed

text \<open>
  C9: from a non-empty range, every invocation (the outer call and each recursive one) is
  on a non-empty range inside the one before: the midpoint is strictly between \<open>first\<close>
  and \<open>last'\<close>, so neither \<open>[first, middle)\<close> nor \<open>[middle, last')\<close> is empty, and no
  invocation meets the break condition with an empty range.
\<close>

theorem BinarySearch_invocations_nonempty:
  fixes xs :: "('a :: linorder) list"
  assumes "first < last'" and "last' \<le> length xs"
  shows "\<forall>(f, l) \<in> set (invocations (fst (BinarySearch xs first last' v))).
    first \<le> f \<and> f < l \<and> l \<le> last'"
  using assms by (rule invocations_within)

theorem BinarySearch_invocations_nonempty_witness:
  "(0 :: nat) < 7 \<and> (7 :: nat) \<le> length [1, 3, 4, 6, 7, 9, 10 :: int]
   \<and> list_all (\<lambda>(f, l). 0 \<le> f \<and> f < l \<and> l \<le> 7)
       (invocations (fst (BinarySearch [1, 3, 4, 6, 7, 9, 10 :: int] 0 7 5)))"
  using BinarySearch_invocations_nonempty [of 0 7 "[1, 3, 4, 6, 7, 9, 10 :: int]" 5]
  by (simp add: list_all_iff)

section \<open>Termination and the depth of the recursion\<close>











section \<open>The call reads the range and nothing else\<close>

text \<open>
  C8: the function has no state, so two calls with the same arguments give the same
  position. The theorem says what the outcome depends on: the two positions, the value,
  and what the sequence holds at the positions \<open>first\<close> to \<open>last'\<close>. Two calls that agree
  on these (two calls with identical arguments in particular) return the same position
  after the same invocations and dereferences.
\<close>

theorem BinarySearch_deterministic:
  fixes xs ys :: "('a :: linorder) list"
  assumes "first \<le> last'"
    and "\<forall>i. first \<le> i \<and> i \<le> last' \<longrightarrow> deref xs i = deref ys i"
  shows "BinarySearch xs first last' v = BinarySearch ys first last' v"
  using assms
proof (induction "last' - first" arbitrary: first last' rule: less_induct)
  case less
  show ?case
  proof (cases "current_distance first last' \<le> 1")
    case True
    have "deref xs first = deref ys first"
      using less.prems by simp
    with True show ?thesis
      by (simp add: BinarySearch_base)
  next
    case False
    define m where "m = first + unat (current_distance first last' div 2)"
    have m: "first < m" "m < last'"
      using middle_in_range [OF less.prems(1) False] by (simp_all add: m_def)
    have d: "deref xs m = deref ys m"
      using less.prems(2) m by simp
    show ?thesis
    proof (cases "deref xs m")
      case (Inl e)
      then have "deref ys m = Inl e"
        using d by simp
      then have "BinarySearch ys first last' v = ([Invoke first last', Deref m], Inl e)"
        by (rule BinarySearch_step_error [OF False m_def])
      moreover have "BinarySearch xs first last' v = ([Invoke first last', Deref m], Inl e)"
        by (rule BinarySearch_step_error [OF False m_def Inl])
      ultimately show ?thesis
        by simp
    next
      case (Inr x)
      have left: "BinarySearch xs first m v = BinarySearch ys first m v"
        using less.hyps [of m first] less.prems(2) m by simp
      have right: "BinarySearch xs m last' v = BinarySearch ys m last' v"
        using less.hyps [of last' m] less.prems(2) m by simp
      have "BinarySearch xs first last' v =
          logged [Invoke first last', Deref m]
            (if x \<ge> v then BinarySearch xs first m v else BinarySearch xs m last' v)"
        by (rule BinarySearch_step [OF False m_def Inr])
      moreover have "deref ys m = Inr x"
        using d Inr by simp
      then have "BinarySearch ys first last' v =
          logged [Invoke first last', Deref m]
            (if x \<ge> v then BinarySearch ys first m v else BinarySearch ys m last' v)"
        by (rule BinarySearch_step [OF False m_def])
      ultimately show ?thesis
        by (simp add: left right)
    qed
  qed
qed

theorem BinarySearch_deterministic_witness:
  "(0 :: nat) \<le> 6
   \<and> BinarySearch [1, 3, 4, 6, 7, 9, 10, 11 :: int] 0 6 5
     = BinarySearch [1, 3, 4, 6, 7, 9, 10, 12 :: int] 0 6 5"
proof -
  have "\<forall>i. (0 :: nat) \<le> i \<and> i \<le> 6 \<longrightarrow>
      deref [1, 3, 4, 6, 7, 9, 10, 11 :: int] i = deref [1, 3, 4, 6, 7, 9, 10, 12 :: int] i"
    by (auto simp: deref_def nth_Cons')
  then show ?thesis
    using BinarySearch_deterministic
      [of 0 6 "[1, 3, 4, 6, 7, 9, 10, 11 :: int]" "[1, 3, 4, 6, 7, 9, 10, 12 :: int]" 5]
    by simp
qed


section \<open>One recursive step\<close>




section \<open>The calls of the driver\<close>

text \<open>
  \<^verbatim>\<open>Exercise3\<close> searches the vector \<open>1, 3, 4, 6, 7, 9, 10\<close> for the values 0 to 19.
  Four of these calls: 5 is found before the 6 at position 3, 1 and 0 at position 0, and
  11 gives the end position 7.
\<close>

lemma Exercise3_calls:
  "snd (BinarySearch [1, 3, 4, 6, 7, 9, 10 :: int] 0 7 5) = Inr 3"
  "snd (BinarySearch [1, 3, 4, 6, 7, 9, 10 :: int] 0 7 1) = Inr 0"
  "snd (BinarySearch [1, 3, 4, 6, 7, 9, 10 :: int] 0 7 11) = Inr 7"
  "snd (BinarySearch [1, 3, 4, 6, 7, 9, 10 :: int] 0 7 0) = Inr 0"
  by (simp_all add: BinarySearch.simps current_distance_def distance_def deref_def logged_def
      word_le_nat_alt)

section \<open>Where the code leaves its contract\<close>

text \<open>
  The break condition \<open>current_distance \<le> 1\<close> dereferences \<open>first\<close> also when the range
  is empty (lines 614 to 617).
\<close>

lemma BinarySearch_empty_range:
  "BinarySearch xs first first v =
     (case deref xs first of
        Inl e \<Rightarrow> ([Invoke first first, Deref first], Inl e)
      | Inr x \<Rightarrow> ([Invoke first first, Deref first], Inr first))"
proof -
  have "current_distance first first \<le> 1"
    by (simp add: current_distance_def distance_def)
  then show ?thesis
    by (simp add: BinarySearch_base split: sum.split)
qed

text \<open>
  C1: the empty sequence is sorted, and the call on it returns no position: it ends in
  the dereference of the end position.
\<close>

theorem BinarySearch_empty_sequence:
  "sorted (elements ([] :: int list) 0 0) \<and> snd (BinarySearch ([] :: int list) 0 0 v) = Inl (OutOfBounds 0)"
  by (simp add: BinarySearch_empty_range deref_def elements_def)

text \<open>
  C2: on the empty range at the end of a sequence (the whole of an empty sequence in
  particular) the call dereferences the end position and returns no position.
\<close>

theorem BinarySearch_empty_range_at_end:
  "BinarySearch xs (length xs) (length xs) v =
     ([Invoke (length xs) (length xs), Deref (length xs)], Inl (OutOfBounds (length xs)))"
  by (simp add: BinarySearch_empty_range deref_def)

text \<open>
  C3: on an empty range \<open>(first, first)\<close> the call dereferences the position \<open>first\<close>,
  which is not a position of the range.
\<close>

theorem BinarySearch_empty_range_derefs:
  "derefs (fst (BinarySearch xs first first v)) = [first]"
  by (simp add: BinarySearch_empty_range split: sum.split)

text \<open>
  With the value of the element type, the template is \<open>BinarySearch\<close>.
\<close>

lemma BinarySearch_template_same_type:
  "BinarySearch_template (\<lambda>x. x) (\<ge>) xs first last' v = BinarySearch xs first last' v"
proof (induction xs first last' v rule: BinarySearch.induct)
  case (1 xs first last' v)
  show ?case
  proof (cases "current_distance first last' \<le> 1")
    case True
    then show ?thesis
      by (subst BinarySearch_template.simps, subst BinarySearch.simps) simp
  next
    case False
    define m where "m = first + unat (current_distance first last' div 2)"
    show ?thesis
    proof (cases "deref xs m")
      case (Inl e)
      with False show ?thesis
        by (subst BinarySearch_template.simps, subst BinarySearch.simps)
          (simp add: Let_def m_def)
    next
      case (Inr x)
      note IH = "1.IH"(1) [OF False refl m_def Inr] "1.IH"(2) [OF False refl m_def Inr]
      have "BinarySearch_template (\<lambda>x. x) (\<ge>) xs first last' v =
          logged [Invoke first last', Deref m]
            (if x \<ge> v then BinarySearch_template (\<lambda>x. x) (\<ge>) xs first m v
             else BinarySearch_template (\<lambda>x. x) (\<ge>) xs m last' v)"
        using False Inr by (subst BinarySearch_template.simps) (simp add: Let_def m_def)
      also have "\<dots> = logged [Invoke first last', Deref m]
            (if x \<ge> v then BinarySearch xs first m v else BinarySearch xs m last' v)"
        using IH by simp
      also have "\<dots> = BinarySearch xs first last' v"
        by (rule BinarySearch_step [OF False m_def Inr, symmetric])
      finally show ?thesis .
    qed
  qed
qed

text \<open>
  C7: the two tests of the template disagree when the value has another type than the
  elements. The sequence \<open>1, 4294967295\<close> of \<^verbatim>\<open>unsigned\<close> elements is sorted and the
  \<^verbatim>\<open>int\<close> value 0 is at most its first element, in the comparison of line 617 as in the
  numbers. The midpoint element 4294967295 converted to \<^verbatim>\<open>int\<close> is \<open>- 1\<close>, smaller
  than 0, so the call recurses on \<open>(1, 2)\<close>; there the unconverted 4294967295 is
  \<open>\<ge> 0\<close>, and the call returns position 1, not the first position.
\<close>

theorem BinarySearch_template_mixed_types:
  "sorted (elements [1, 4294967295 :: 32 word] 0 2)
   \<and> unsigned_ge_int ([1, 4294967295] ! 0) 0
   \<and> snd (BinarySearch_template unsigned_to_int unsigned_ge_int [1, 4294967295] 0 2 0) = Inr 1"
  by (simp add: BinarySearch_template.simps current_distance_def distance_def deref_def
      logged_def word_le_nat_alt elements_def unsigned_to_int_def unsigned_ge_int_def)

text \<open>
  C6: the span is stored in 32 bits. On the sorted sequence of \<open>2 ^ 32\<close> elements
  \<open>0, 1, 1, \<dots>, 1\<close> the stored span is 0, the break condition holds at once, and the call
  returns the end position \<open>2 ^ 32\<close> although the element at position 1 is \<open>\<ge> 1\<close>. On
  \<open>[2, 2, 2, 5]\<close> it returns position 0, the leftmost of the run of 2s.
\<close>

theorem BinarySearch_span_truncated:
  "snd (BinarySearch ((0 :: int) # replicate 4294967295 1) 0 4294967296 1) = Inr 4294967296
   \<and> snd (BinarySearch [2, 2, 2, 5 :: int] 0 4 2) = Inr 0"
proof -
  have "current_distance 0 4294967296 = 0"
    by (simp add: current_distance_def distance_def)
  then have "current_distance 0 4294967296 \<le> 1"
    by simp
  moreover have "deref ((0 :: int) # replicate 4294967295 1) 0 = Inr 0"
    by (simp add: deref_def)
  ultimately have "snd (BinarySearch ((0 :: int) # replicate 4294967295 1) 0 4294967296 1)
      = Inr 4294967296"
    by (simp add: BinarySearch_base)
  moreover have "snd (BinarySearch [2, 2, 2, 5 :: int] 0 4 2) = Inr 0"
    by (simp add: BinarySearch.simps current_distance_def distance_def deref_def logged_def
        word_le_nat_alt)
  ultimately show ?thesis
    by simp
qed

text \<open>
  The midpoint is half the stored span, not half the span: on \<open>2 ^ 32 + 2\<close> elements
  the stored span is 2 and the midpoint is position 1.
\<close>

lemma BinarySearch_midpoint_truncated:
  "derefs (fst (BinarySearch (replicate 4294967298 (0 :: int)) 0 4294967298 1)) = [1, 1]
   \<and> spec_midpoint 0 4294967298 = 2147483649"
proof -
  let ?xs = "replicate 4294967298 (0 :: int)"
  have cd0: "current_distance 0 4294967298 = 2"
    by (simp add: current_distance_def distance_def)
  have cd1: "current_distance 1 4294967298 = 1"
    by (simp add: current_distance_def distance_def)
  have d: "deref ?xs 1 = Inr 0"
    by (simp add: deref_def)
  have "BinarySearch ?xs 1 4294967298 1 =
      (case deref ?xs 1 of
         Inl e \<Rightarrow> ([Invoke 1 4294967298, Deref 1], Inl e)
       | Inr x \<Rightarrow> ([Invoke 1 4294967298, Deref 1],
           if x \<ge> 1 then Inr 1 else Inr 4294967298))"
    by (rule BinarySearch_base) (simp only: cd1 order_refl)
  then have inner: "BinarySearch ?xs 1 4294967298 1 =
      ([Invoke 1 4294967298, Deref 1], Inr 4294967298)"
    unfolding d by simp
  have "BinarySearch ?xs 0 4294967298 1 =
      logged [Invoke 0 4294967298, Deref 1]
        (if (0 :: int) \<ge> 1 then BinarySearch ?xs 0 1 1 else BinarySearch ?xs 1 4294967298 1)"
    by (rule BinarySearch_step [where m = 1 and x = 0])
      (simp_all only: cd0 d, simp_all add: word_le_nat_alt)
  then have "BinarySearch ?xs 0 4294967298 1 =
      ([Invoke 0 4294967298, Deref 1, Invoke 1 4294967298, Deref 1], Inr 4294967298)"
    unfolding inner by (simp add: logged_def)
  then show ?thesis
    by (simp add: spec_midpoint_def)
qed

end
